theory Spec2Isabelle
  imports Main "HOL-Library.Sublist"
begin

section \<open>Values and objects\<close>

text \<open>
  The generator works on the tree that \<^verbatim>\<open>JSON.parse\<close> returns. A value is a
  primitive, an array or an object; an object is the list of its entries in the order
  in which \<^verbatim>\<open>Object.entries\<close> enumerates them. Strings are lists of characters,
  one per code unit. Numbers are the integers (the fractional numbers of JavaScript are
  outside this development); \<^verbatim>\<open>null\<close> and \<^verbatim>\<open>undefined\<close> are both \<open>JNull\<close> when
  they occur as a value, and an absent field is \<open>None\<close>. A field that the interfaces
  of \<^verbatim>\<open>parser.ts\<close> declare as a string (a key, a name, a content type) is read as a
  string.
\<close>

datatype json =
    JNull
  | JBool bool
  | JNumber int
  | JString string
  | JArray "json list"
  | JObject "(string \<times> json) list"

definition nl :: char where
  "nl = CHR 0x0A"

definition sq :: char where
  "sq = CHR 0x27"

definition bsl :: char where
  "bsl = CHR 0x5C"

text \<open>Truthiness of a possibly absent value, as \<^verbatim>\<open>if (v)\<close> tests it.\<close>

fun truthy :: "json option \<Rightarrow> bool" where
  "truthy None = False"
| "truthy (Some JNull) = False"
| "truthy (Some (JBool b)) = b"
| "truthy (Some (JNumber n)) = (n \<noteq> 0)"
| "truthy (Some (JString s)) = (s \<noteq> [])"
| "truthy (Some (JArray xs)) = True"
| "truthy (Some (JObject es)) = True"

text \<open>
  \<^verbatim>\<open>v?.f\<close> for the field names used here (\<^verbatim>\<open>type\<close>, \<^verbatim>\<open>contentType\<close>): only an
  object has such a field.
\<close>

fun field :: "json option \<Rightarrow> string \<Rightarrow> json option" where
  "field (Some (JObject es)) f = map_of es f"
| "field _ f = None"

text \<open>
  A field declared \<^verbatim>\<open>string\<close> and used under a truthiness test: the string when it
  is present and not empty.
\<close>

fun as_key :: "json option \<Rightarrow> string option" where
  "as_key (Some (JString s)) = (if s = [] then None else Some s)"
| "as_key _ = None"

text \<open>
  Assignment \<^verbatim>\<open>obj[k] = v\<close>. An existing key keeps its place; a new key that is a
  canonical array index is enumerated among the indices in ascending order, before
  every other key; any other new key goes last.
\<close>

definition digit_val :: "char \<Rightarrow> nat" where
  "digit_val c = of_char c - 48"

definition dec_val :: "string \<Rightarrow> nat" where
  "dec_val s = foldl (\<lambda>a c. 10 * a + digit_val c) 0 s"

definition is_array_index :: "string \<Rightarrow> bool" where
  "is_array_index s =
     (s \<noteq> [] \<and> list_all (\<lambda>c. c \<in> set ''0123456789'') s
      \<and> (s = ''0'' \<or> hd s \<noteq> CHR ''0'') \<and> dec_val s < 4294967295)"

fun js_insert_index :: "nat \<Rightarrow> string \<Rightarrow> 'v \<Rightarrow> (string \<times> 'v) list \<Rightarrow> (string \<times> 'v) list" where
  "js_insert_index n k v [] = [(k, v)]"
| "js_insert_index n k v ((k', v') # es) =
     (if is_array_index k' \<and> dec_val k' < n then (k', v') # js_insert_index n k v es
      else (k, v) # (k', v') # es)"

definition js_set :: "(string \<times> 'v) list \<Rightarrow> string \<Rightarrow> 'v \<Rightarrow> (string \<times> 'v) list" where
  "js_set obj k v =
     (if k \<in> fst ` set obj then map (\<lambda>e. if fst e = k then (k, v) else e) obj
      else if is_array_index k then js_insert_index (dec_val k) k v obj
      else obj @ [(k, v)])"

section \<open>The content model (parser.ts)\<close>

type_synonym PropertyDefinition = "(string \<times> json) list"

text \<open>
  A property collection arrives as an object keyed by property name, or as an array of
  records that carry their own \<^verbatim>\<open>name\<close>. \<open>RawContentType\<close> is a content type as
  it stands in the schema, \<open>ContentTypeDefinition\<close> the same after the parser has
  normalized its properties.
\<close>

datatype RawProperties =
    PropsObject "(string \<times> PropertyDefinition) list"
  | PropsArray "PropertyDefinition list"

record RawContentType =
  raw_key :: string
  raw_displayName :: "string option"
  raw_description :: "string option"
  raw_baseType :: string
  raw_compositionBehaviors :: "string list option"
  raw_properties :: "RawProperties option"

record ContentTypeDefinition =
  key :: string
  displayName :: "string option"
  description :: "string option"
  baseType :: string
  compositionBehaviors :: "string list option"
  properties :: "(string \<times> PropertyDefinition) list option"

record DisplayTemplateDefinition =
  t_key :: string
  t_displayName :: "string option"
  t_contentType :: string
  t_isDefault :: "bool option"
  t_settings :: "(string \<times> json) list option"

record TypesJson =
  contentTypes_in :: "RawContentType list option"
  displayTemplates_in :: "DisplayTemplateDefinition list option"

datatype Category = Blocks | Elements | Pages | Settings

record CategorizedContentType =
  definition_of :: ContentTypeDefinition
  category :: Category
  dependencies :: "string list"

subsection \<open>Categorization\<close>

definition SKIP_BASE_TYPES :: "string set" where
  "SKIP_BASE_TYPES = {''_media'', ''_image'', ''_video''}"

text \<open>\<^verbatim>\<open>s.endsWith(t)\<close>: the last \<open>length t\<close> code units of \<open>s\<close> are \<open>t\<close>.\<close>

definition endsWith :: "string \<Rightarrow> string \<Rightarrow> bool" where
  "endsWith s t = (length t \<le> length s \<and> drop (length s - length t) s = t)"

definition categorizeContentType :: "ContentTypeDefinition \<Rightarrow> Category option" where
  "categorizeContentType ct =
     (if baseType ct \<in> SKIP_BASE_TYPES then None
      else if baseType ct = ''_page'' then Some Pages
      else if baseType ct = ''_component'' then
        (if endsWith (key ct) ''Settings'' then Some Settings
         else if endsWith (key ct) ''Element'' then Some Elements
         else Some Blocks)
      else Some Blocks)"

text \<open>
  The categorizer in the words of the specification: a function of the base type and
  the key, with its four rules in order.
\<close>

datatype Verdict = Skip | Cat Category

definition categorize_spec :: "string \<Rightarrow> string \<Rightarrow> Verdict" where
  "categorize_spec bt k =
     (if bt = ''_media'' \<or> bt = ''_image'' \<or> bt = ''_video'' then Skip
      else if bt = ''_page'' then Cat Pages
      else if bt = ''_component'' then
        (if suffix ''Settings'' k then Cat Settings
         else if suffix ''Element'' k then Cat Elements
         else Cat Blocks)
      else Cat Blocks)"

definition verdict_of :: "Category option \<Rightarrow> Verdict" where
  "verdict_of r = (case r of None \<Rightarrow> Skip | Some c \<Rightarrow> Cat c)"

subsection \<open>Dependency extraction\<close>

text \<open>
  \<^verbatim>\<open>[...new Set(deps)]\<close>: the distinct elements, each at the place of its first
  occurrence.
\<close>

fun set_spread :: "'a list \<Rightarrow> 'a list \<Rightarrow> 'a list" where
  "set_spread acc [] = acc"
| "set_spread acc (x # xs) = set_spread (if x \<in> set acc then acc else acc @ [x]) xs"

text \<open>
  What one property pushes onto \<^verbatim>\<open>deps\<close>: the content type of its array items when
  these are components, then its own content type when it is a component.
\<close>

definition prop_deps :: "PropertyDefinition \<Rightarrow> string list" where
  "prop_deps prop =
     (if map_of prop ''type'' = Some (JString ''array'')
         \<and> field (map_of prop ''items'') ''type'' = Some (JString ''component'')
      then (case as_key (field (map_of prop ''items'') ''contentType'') of
              None \<Rightarrow> [] | Some k \<Rightarrow> [k])
      else [])
     @ (if map_of prop ''type'' = Some (JString ''component'')
        then (case as_key (map_of prop ''contentType'') of None \<Rightarrow> [] | Some k \<Rightarrow> [k])
        else [])"

definition extractDependencies :: "(string \<times> PropertyDefinition) list option \<Rightarrow> string list" where
  "extractDependencies props =
     (case props of
        None \<Rightarrow> []
      | Some ps \<Rightarrow> set_spread [] (concat (map (\<lambda>(n, prop). prop_deps prop) ps)))"

subsection \<open>Normalization\<close>

text \<open>
  The loop of \<^verbatim>\<open>normalizeProperties\<close> over the records of an array: the name is
  taken out of the record, and a record without a (non-empty) name is dropped.
\<close>

fun normalize_loop :: "(string \<times> PropertyDefinition) list \<Rightarrow> PropertyDefinition list
    \<Rightarrow> (string \<times> PropertyDefinition) list" where
  "normalize_loop result [] = result"
| "normalize_loop result (prop # rest) =
     (case as_key (map_of prop ''name'') of
        None \<Rightarrow> normalize_loop result rest
      | Some name \<Rightarrow>
          normalize_loop (js_set result name (filter (\<lambda>(k, v). k \<noteq> ''name'') prop)) rest)"

definition normalizeProperties :: "RawProperties option \<Rightarrow> (string \<times> PropertyDefinition) list option" where
  "normalizeProperties props =
     (case props of
        None \<Rightarrow> None
      | Some (PropsArray rs) \<Rightarrow>
          (let result = normalize_loop [] rs in if length result > 0 then Some result else None)
      | Some (PropsObject ps) \<Rightarrow> Some ps)"

subsection \<open>The parser\<close>

text \<open>
  \<^verbatim>\<open>Map\<close>: the entries in insertion order; setting an existing key replaces its value
  and keeps its place.
\<close>

definition map_set :: "('k \<times> 'v) list \<Rightarrow> 'k \<Rightarrow> 'v \<Rightarrow> ('k \<times> 'v) list" where
  "map_set m k v =
     (if k \<in> fst ` set m then map (\<lambda>e. if fst e = k then (k, v) else e) m
      else m @ [(k, v)])"

record ParsedTypes =
  contentTypes :: "(string \<times> CategorizedContentType) list"
  displayTemplates :: "DisplayTemplateDefinition list"
  byCategory :: "Category \<Rightarrow> CategorizedContentType list"

text \<open>
  \<^verbatim>\<open>Array.prototype.sort\<close> is stable; \<^verbatim>\<open>localeCompare\<close> belongs to the platform and
  is a parameter \<open>cmp\<close> (negative, zero or positive).
\<close>

fun insort_cmp :: "(string \<Rightarrow> string \<Rightarrow> int) \<Rightarrow> CategorizedContentType
    \<Rightarrow> CategorizedContentType list \<Rightarrow> CategorizedContentType list" where
  "insort_cmp cmp x [] = [x]"
| "insort_cmp cmp x (y # ys) =
     (if cmp (key (definition_of x)) (key (definition_of y)) \<le> 0 then x # y # ys
      else y # insort_cmp cmp x ys)"

definition sort_cmp :: "(string \<Rightarrow> string \<Rightarrow> int) \<Rightarrow> CategorizedContentType list
    \<Rightarrow> CategorizedContentType list" where
  "sort_cmp cmp xs = foldr (insort_cmp cmp) xs []"

text \<open>\<^verbatim>\<open>ct.properties = normalizeProperties(ct.properties)\<close>.\<close>

definition normalize_ct :: "RawContentType \<Rightarrow> ContentTypeDefinition" where
  "normalize_ct ct =
     \<lparr>key = raw_key ct, displayName = raw_displayName ct, description = raw_description ct,
      baseType = raw_baseType ct, compositionBehaviors = raw_compositionBehaviors ct,
      properties = normalizeProperties (raw_properties ct)\<rparr>"

text \<open>
  One round of the loop over \<^verbatim>\<open>data.contentTypes\<close>: the state is the map
  \<^verbatim>\<open>contentTypes\<close> and the grouping \<^verbatim>\<open>byCategory\<close>.
\<close>

definition parse_step :: "(string \<times> CategorizedContentType) list \<times> (Category \<Rightarrow> CategorizedContentType list)
    \<Rightarrow> RawContentType
    \<Rightarrow> (string \<times> CategorizedContentType) list \<times> (Category \<Rightarrow> CategorizedContentType list)" where
  "parse_step st raw =
     (let ct = normalize_ct raw in
      case categorizeContentType ct of
        None \<Rightarrow> st
      | Some cat \<Rightarrow>
          (let categorized = \<lparr>definition_of = ct, category = cat,
                               dependencies = extractDependencies (properties ct)\<rparr>
           in (map_set (fst st) (key ct) categorized,
               (snd st)(cat := snd st cat @ [categorized]))))"

text \<open>
  The parser, from the document that \<^verbatim>\<open>JSON.parse\<close> has returned: reading the file
  and parsing its text belong to the platform.
\<close>

definition parseTypesJson :: "(string \<Rightarrow> string \<Rightarrow> int) \<Rightarrow> TypesJson \<Rightarrow> ParsedTypes" where
  "parseTypesJson cmp data =
     (let st = foldl parse_step ([], \<lambda>c. [])
                 (case contentTypes_in data of None \<Rightarrow> [] | Some cts \<Rightarrow> cts)
      in \<lparr>contentTypes = fst st,
          displayTemplates = (case displayTemplates_in data of None \<Rightarrow> [] | Some ts \<Rightarrow> ts),
          byCategory = (\<lambda>c. sort_cmp cmp (snd st c))\<rparr>)"


subsection \<open>Dependency order\<close>

text \<open>
  \<^verbatim>\<open>visit\<close> with its two variables \<^verbatim>\<open>visited\<close> and \<^verbatim>\<open>result\<close> passed as a state;
  \<open>visit_all\<close> is the loop \<^verbatim>\<open>for (const dep of ...) visit(dep)\<close>, which is also the
  loop over the keys of the model.
\<close>

function visit :: "ParsedTypes \<Rightarrow> string \<Rightarrow> string set \<times> string list \<Rightarrow> string set \<times> string list"
  and visit_all :: "ParsedTypes \<Rightarrow> string list \<Rightarrow> string set \<times> string list \<Rightarrow> string set \<times> string list"
where
  "visit parsed k (visited, result) =
     (if k \<in> visited then (visited, result)
      else (case map_of (contentTypes parsed) k of
              None \<Rightarrow> (insert k visited, result)
            | Some ct \<Rightarrow>
                (let st = visit_all parsed (dependencies ct) (insert k visited, result)
                 in (fst st, snd st @ [k]))))"
| "visit_all parsed [] st = st"
| "visit_all parsed (d # ds) st = visit_all parsed ds (visit parsed d st)"
  by pat_completeness auto

lemma visit_visited_mono:
  "visit_visit_all_dom (Inl (parsed, k, st)) \<Longrightarrow> fst st \<subseteq> fst (visit parsed k st)"
  "visit_visit_all_dom (Inr (parsed, ds, st)) \<Longrightarrow> fst st \<subseteq> fst (visit_all parsed ds st)"
proof (induct parsed k st and parsed ds st rule: visit_visit_all.pinduct)
  case (1 parsed k visited result)
  then show ?case
    by (auto simp: visit.psimps Let_def split: option.splits)
next
  case (2 parsed st)
  then show ?case
    by (simp add: visit_all.psimps)
next
  case (3 parsed d ds st)
  then show ?case
    by (auto simp: visit_all.psimps)
qed

termination visit
proof (relation "inv_image (finite_psubset <*lex*> less_than)
    (\<lambda>x. case x of
       Inl (parsed, k, st) \<Rightarrow> (fst ` set (contentTypes parsed) - fst st, 0)
     | Inr (parsed, ds, st) \<Rightarrow> (fst ` set (contentTypes parsed) - fst st, Suc (length ds)))")
  show "wf (inv_image (finite_psubset <*lex*> less_than)
    (\<lambda>x. case x of
       Inl (parsed, k, st) \<Rightarrow> (fst ` set (contentTypes parsed) - fst st, 0::nat)
     | Inr (parsed, ds, st) \<Rightarrow> (fst ` set (contentTypes parsed) - fst st, Suc (length ds))))"
    by (intro wf_inv_image wf_lex_prod wf_finite_psubset wf_less_than)
next
  fix parsed :: ParsedTypes and k :: string and visited :: "string set"
    and result :: "string list" and ct :: CategorizedContentType
  assume "k \<notin> visited" and "map_of (contentTypes parsed) k = Some ct"
  then have "k \<in> fst ` set (contentTypes parsed)"
    by (metis domI dom_map_of_conv_image_fst)
  with \<open>k \<notin> visited\<close>
  have "fst ` set (contentTypes parsed) - insert k visited \<subset> fst ` set (contentTypes parsed) - visited"
    by auto
  then show "(Inr (parsed, dependencies ct, insert k visited, result), Inl (parsed, k, visited, result))
    \<in> inv_image (finite_psubset <*lex*> less_than)
    (\<lambda>x. case x of
       Inl (parsed, k, st) \<Rightarrow> (fst ` set (contentTypes parsed) - fst st, 0::nat)
     | Inr (parsed, ds, st) \<Rightarrow> (fst ` set (contentTypes parsed) - fst st, Suc (length ds)))"
    by (simp add: finite_psubset_def)
next
  fix parsed :: ParsedTypes and d :: string and ds :: "string list"
    and st :: "string set \<times> string list"
  show "(Inl (parsed, d, st), Inr (parsed, d # ds, st))
    \<in> inv_image (finite_psubset <*lex*> less_than)
    (\<lambda>x. case x of
       Inl (parsed, k, st) \<Rightarrow> (fst ` set (contentTypes parsed) - fst st, 0::nat)
     | Inr (parsed, ds, st) \<Rightarrow> (fst ` set (contentTypes parsed) - fst st, Suc (length ds)))"
    by simp
next
  fix parsed :: ParsedTypes and d :: string and ds :: "string list"
    and st :: "string set \<times> string list"
  assume "visit_visit_all_dom (Inl (parsed, d, st))"
  then have "fst st \<subseteq> fst (visit parsed d st)"
    by (rule visit_visited_mono)
  then have "fst ` set (contentTypes parsed) - fst (visit parsed d st)
      \<subseteq> fst ` set (contentTypes parsed) - fst st"
    by auto
  then show "(Inr (parsed, ds, visit parsed d st), Inr (parsed, d # ds, st))
    \<in> inv_image (finite_psubset <*lex*> less_than)
    (\<lambda>x. case x of
       Inl (parsed, k, st) \<Rightarrow> (fst ` set (contentTypes parsed) - fst st, 0::nat)
     | Inr (parsed, ds, st) \<Rightarrow> (fst ` set (contentTypes parsed) - fst st, Suc (length ds)))"
    by (auto simp: finite_psubset_def)
qed

definition buildDependencyOrder :: "ParsedTypes \<Rightarrow> string list" where
  "buildDependencyOrder parsed = snd (visit_all parsed (map fst (contentTypes parsed)) ({}, []))"

subsection \<open>Notions for the dependency order\<close>

text \<open>
  The keys of the model, the dependency list of a key as \<^verbatim>\<open>visit\<close> reads it, and the
  dependency graph restricted to the keys of the model: an edge leads from a key to each
  of its dependencies that is itself a key of the model.
\<close>

definition model_keys :: "ParsedTypes \<Rightarrow> string set" where
  "model_keys parsed = fst ` set (contentTypes parsed)"

definition deps_of :: "ParsedTypes \<Rightarrow> string \<Rightarrow> string list" where
  "deps_of parsed k =
     (case map_of (contentTypes parsed) k of None \<Rightarrow> [] | Some ct \<Rightarrow> dependencies ct)"

definition dep_edges :: "ParsedTypes \<Rightarrow> (string \<times> string) list" where
  "dep_edges parsed =
     concat (map (\<lambda>k. map (Pair k) (filter (\<lambda>d. d \<in> model_keys parsed) (deps_of parsed k)))
       (map fst (contentTypes parsed)))"

definition dep_graph :: "ParsedTypes \<Rightarrow> (string \<times> string) set" where
  "dep_graph parsed = set (dep_edges parsed)"

definition deps_first :: "ParsedTypes \<Rightarrow> string list \<Rightarrow> bool" where
  "deps_first parsed order =
     (\<forall>i<length order. \<forall>d\<in>set (deps_of parsed (order ! i)).
        d \<in> model_keys parsed \<longrightarrow> (\<exists>j<i. order ! j = d))"

definition gray :: "ParsedTypes \<Rightarrow> string set \<times> string list \<Rightarrow> string set" where
  "gray parsed st = (fst st \<inter> model_keys parsed) - set (snd st)"

definition visit_inv :: "ParsedTypes \<Rightarrow> string set \<times> string list \<Rightarrow> bool" where
  "visit_inv parsed st =
     (set (snd st) \<subseteq> fst st \<inter> model_keys parsed \<and> distinct (snd st) \<and> deps_first parsed (snd st))"

definition visit_pre :: "ParsedTypes \<Rightarrow> string list \<Rightarrow> string set \<times> string list \<Rightarrow> bool" where
  "visit_pre parsed ks st =
     (\<forall>k\<in>set ks. k \<in> model_keys parsed \<longrightarrow> (\<forall>g\<in>gray parsed st. (g, k) \<in> (dep_graph parsed)\<^sup>+))"

definition visit_post :: "ParsedTypes \<Rightarrow> string list \<Rightarrow> string set \<times> string list
    \<Rightarrow> string set \<times> string list \<Rightarrow> bool" where
  "visit_post parsed ks st st' =
     (visit_inv parsed st' \<and> fst st \<subseteq> fst st' \<and> set ks \<subseteq> fst st' \<and> gray parsed st' = gray parsed st)"

text \<open>A model with a dependency inside the model and a dangling one.\<close>

definition mk_ct :: "string \<Rightarrow> string \<Rightarrow> ContentTypeDefinition" where
  "mk_ct k bt = \<lparr>key = k, displayName = None, description = None, baseType = bt,
     compositionBehaviors = None, properties = None\<rparr>"

definition order_example :: ParsedTypes where
  "order_example =
     \<lparr>contentTypes =
        [(''GridBlock'', \<lparr>definition_of = mk_ct ''GridBlock'' ''_component'', category = Blocks,
            dependencies = [''ItemElement'', ''Missing'']\<rparr>),
         (''ItemElement'', \<lparr>definition_of = mk_ct ''ItemElement'' ''_component'', category = Elements,
            dependencies = []\<rparr>)],
      displayTemplates = [],
      byCategory = (\<lambda>c. [])\<rparr>"

subsection \<open>Notions for dependency extraction\<close>

text \<open>
  A property refers to the content type \<open>k\<close> through its array items when it is an
  array whose item descriptor has type \<^verbatim>\<open>component\<close> and carries the key \<open>k\<close>,
  and directly when it has type \<^verbatim>\<open>component\<close> itself and carries \<open>k\<close>. The empty
  string is no key.
\<close>

definition array_ref :: "PropertyDefinition \<Rightarrow> string \<Rightarrow> bool" where
  "array_ref prop k =
     (k \<noteq> [] \<and> map_of prop ''type'' = Some (JString ''array'')
      \<and> (case map_of prop ''items'' of
            Some (JObject items) \<Rightarrow>
              map_of items ''type'' = Some (JString ''component'')
              \<and> map_of items ''contentType'' = Some (JString k)
          | _ \<Rightarrow> False))"

definition direct_ref :: "PropertyDefinition \<Rightarrow> string \<Rightarrow> bool" where
  "direct_ref prop k =
     (k \<noteq> [] \<and> map_of prop ''type'' = Some (JString ''component'')
      \<and> map_of prop ''contentType'' = Some (JString k))"

definition referenced :: "(string \<times> PropertyDefinition) list \<Rightarrow> string \<Rightarrow> bool" where
  "referenced ps k = list_ex (\<lambda>(n, prop). array_ref prop k \<or> direct_ref prop k) ps"

text \<open>One content type referenced twice: once through array items, once directly.\<close>

definition twice_example :: "(string \<times> PropertyDefinition) list" where
  "twice_example =
     [(''features'', [(''type'', JString ''array''),
         (''items'', JObject [(''type'', JString ''component''),
                              (''contentType'', JString ''FeatureItemElement'')])]),
      (''highlight'', [(''type'', JString ''component''),
         (''contentType'', JString ''FeatureItemElement'')])]"

section \<open>The generator\<close>

subsection \<open>The value serializer\<close>

datatype Suffix = CT | DisplayTemplate

definition toConstantName :: "string \<Rightarrow> Suffix \<Rightarrow> string" where
  "toConstantName k sfx = (case sfx of CT \<Rightarrow> k @ ''CT'' | DisplayTemplate \<Rightarrow> k)"

definition spaces :: "nat \<Rightarrow> string" where
  "spaces level = concat (replicate level ''  '')"

fun join :: "string \<Rightarrow> string list \<Rightarrow> string" where
  "join sep [] = []"
| "join sep [x] = x"
| "join sep (x # y # ys) = x @ sep @ join sep (y # ys)"

definition escape_quotes :: "string \<Rightarrow> string" where
  "escape_quotes s = concat (map (\<lambda>c. if c = sq then [bsl, sq] else [c]) s)"

definition ident_start :: "char \<Rightarrow> bool" where
  "ident_start c =
     (c \<in> set ''abcdefghijklmnopqrstuvwxyz'' \<or> c \<in> set ''ABCDEFGHIJKLMNOPQRSTUVWXYZ''
      \<or> c = CHR ''_'' \<or> c = CHR ''$'')"

definition ident_part :: "char \<Rightarrow> bool" where
  "ident_part c = (ident_start c \<or> c \<in> set ''0123456789'')"

definition is_identifier :: "string \<Rightarrow> bool" where
  "is_identifier k = (case k of [] \<Rightarrow> False | c # cs \<Rightarrow> ident_start c \<and> list_all ident_part cs)"

fun show_nat :: "nat \<Rightarrow> string" where
  "show_nat n =
     (if n < 10 then [''0123456789'' ! n] else show_nat (n div 10) @ [''0123456789'' ! (n mod 10)])"

definition show_int :: "int \<Rightarrow> string" where
  "show_int i = (if i < 0 then CHR ''-'' # show_nat (nat (- i)) else show_nat (nat i))"

fun serialize :: "json \<Rightarrow> nat \<Rightarrow> string" where
  "serialize JNull currentIndent = ''undefined''"
| "serialize (JString s) currentIndent = [sq] @ escape_quotes s @ [sq]"
| "serialize (JNumber i) currentIndent = show_int i"
| "serialize (JBool b) currentIndent = (if b then ''true'' else ''false'')"
| "serialize (JArray vs) currentIndent =
     (if vs = [] then ''[]''
      else
        (let items = map (\<lambda>v. serialize v (currentIndent + 1)) vs in
         if list_all (\<lambda>i. nl \<notin> set i) items \<and> length (join '', '' items) < 60
         then ''['' @ join '', '' items @ '']''
         else ''['' @ [nl]
              @ join [nl] (map (\<lambda>item. spaces (currentIndent + 1) @ item @ '','') items)
              @ [nl] @ spaces currentIndent @ '']''))"
| "serialize (JObject es) currentIndent =
     (if es = [] then ''{}''
      else ''{'' @ [nl]
           @ join [nl]
               (map (\<lambda>e. spaces (currentIndent + 1)
                          @ (if is_identifier (fst e) then fst e else [sq] @ fst e @ [sq])
                          @ '': '' @ serialize (snd e) (currentIndent + 1) @ '','') es)
           @ [nl] @ spaces currentIndent @ ''}'')"

definition serializeValue :: "json \<Rightarrow> nat \<Rightarrow> string" where
  "serializeValue v baseIndent = serialize v baseIndent"

subsection \<open>Properties and content types\<close>

definition isDefaultPropertyValue :: "string \<Rightarrow> json \<Rightarrow> bool" where
  "isDefaultPropertyValue k v =
     (if k = ''sortOrder'' \<and> v = JNumber 0 then True
      else if k = ''maxLength'' \<and> v = JNumber 255 then True
      else if k = ''allowedTypes'' \<and> v = JArray [] then True
      else if k = ''restrictedTypes'' \<and> v = JArray [] then True
      else if k = ''localized'' \<and> v = JBool False then True
      else if k = ''required'' \<and> v = JBool False then True
      else if k = ''group'' \<and> v = JString ''content'' then True
      else False)"

record ImportInfo =
  constantName :: string
  import_category :: Category
  fileName :: string

text \<open>
  \<^verbatim>\<open>prop.type === 'array' && prop.items?.type === 'component' && prop.items.contentType\<close>
\<close>

definition is_component_array :: "PropertyDefinition \<Rightarrow> bool" where
  "is_component_array prop =
     (map_of prop ''type'' = Some (JString ''array'')
      \<and> field (map_of prop ''items'') ''type'' = Some (JString ''component'')
      \<and> truthy (field (map_of prop ''items'') ''contentType''))"

text \<open>The loop that copies the entries of the property.\<close>

fun copy_entries :: "PropertyDefinition \<Rightarrow> bool \<Rightarrow> (string \<times> json) list \<Rightarrow> (string \<times> json) list
    \<Rightarrow> (string \<times> json) list" where
  "copy_entries prop verboseGeneration result [] = result"
| "copy_entries prop verboseGeneration result ((k, v) # es) =
     (if k = ''items'' \<and> is_component_array prop
      then copy_entries prop verboseGeneration result es
      else if \<not> verboseGeneration \<and> isDefaultPropertyValue k v
      then copy_entries prop verboseGeneration result es
      else copy_entries prop verboseGeneration (js_set result k v) es)"

text \<open>
  The reference key is \<^verbatim>\<open>prop.items.contentType\<close>; only a string is a key of the
  map \<^verbatim>\<open>parsed.contentTypes\<close>. Where the test above holds the property has items, so
  the first case below does not arise.
\<close>

definition buildPropertyObject :: "PropertyDefinition \<Rightarrow> ParsedTypes \<Rightarrow> (string \<times> ImportInfo) list
    \<Rightarrow> bool \<Rightarrow> (string \<times> json) list \<times> (string \<times> ImportInfo) list" where
  "buildPropertyObject prop parsed componentRefs verboseGeneration =
     (let result = copy_entries prop verboseGeneration [] prop in
      if is_component_array prop then
        (case map_of prop ''items'' of
           None \<Rightarrow> (result, componentRefs)
         | Some items \<Rightarrow>
             (case field (Some items) ''contentType'' of
                Some (JString refKey) \<Rightarrow>
                  (case map_of (contentTypes parsed) refKey of
                     Some refCt \<Rightarrow>
                       (js_set result ''items''
                          (JObject [(''type'', JString ''component''),
                                    (''__contentTypeRef'', JString (toConstantName refKey CT))]),
                        map_set componentRefs refKey
                          \<lparr>constantName = toConstantName refKey CT,
                           import_category = category refCt, fileName = refKey\<rparr>)
                   | None \<Rightarrow> (js_set result ''items'' items, componentRefs))
              | _ \<Rightarrow> (js_set result ''items'' items, componentRefs)))
      else (result, componentRefs))"



text \<open>The object that \<^verbatim>\<open>generateContentType\<close> builds, and the references it collects.\<close>

fun build_props :: "ParsedTypes \<Rightarrow> bool \<Rightarrow> (string \<times> json) list \<times> (string \<times> ImportInfo) list
    \<Rightarrow> (string \<times> PropertyDefinition) list \<Rightarrow> (string \<times> json) list \<times> (string \<times> ImportInfo) list" where
  "build_props parsed verboseGeneration st [] = st"
| "build_props parsed verboseGeneration st ((propName, propDef) # ps) =
     (let r = buildPropertyObject propDef parsed (snd st) verboseGeneration
      in build_props parsed verboseGeneration (js_set (fst st) propName (JObject (fst r)), snd r) ps)"

text \<open>\<^verbatim>\<open>if (s) obj.f = s\<close> for an optional string: an entry when it is present and not empty.\<close>

definition string_entry :: "string \<Rightarrow> string option \<Rightarrow> (string \<times> json) list" where
  "string_entry f s = (case s of None \<Rightarrow> [] | Some x \<Rightarrow> if x = [] then [] else [(f, JString x)])"

definition contentTypeObject :: "CategorizedContentType \<Rightarrow> ParsedTypes \<Rightarrow> (string \<times> ImportInfo) list
    \<Rightarrow> bool \<Rightarrow> (string \<times> json) list \<times> (string \<times> ImportInfo) list" where
  "contentTypeObject ct parsed componentRefs verboseGeneration =
     (let def = definition_of ct;
          obj = [(''key'', JString (key def))]
            @ string_entry ''displayName'' (displayName def)
            @ string_entry ''description'' (description def)
            @ [(''baseType'', JString (baseType def))]
            @ (case compositionBehaviors def of
                 None \<Rightarrow> []
               | Some bs \<Rightarrow> if length bs > 0
                   then [(''compositionBehaviors'', JArray (map JString bs))] else [])
      in case properties def of
           None \<Rightarrow> (obj, componentRefs)
         | Some ps \<Rightarrow>
             if length ps > 0
             then (let r = build_props parsed verboseGeneration ([], componentRefs) ps
                   in (obj @ [(''properties'', JObject (fst r))], snd r))
             else (obj, componentRefs))"



subsection \<open>Files\<close>

















record GeneratorOptions =
  outdir :: string
  singleFile :: bool
  withRegistry :: bool
  verboseGeneration :: bool




subsection \<open>Notions for normalization\<close>

text \<open>
  A record of a property array lacks a name when \<^verbatim>\<open>if (name)\<close> fails: it has no
  \<^verbatim>\<open>name\<close> field, or the name is the empty string (or another falsy value).
\<close>

definition nameless :: "PropertyDefinition \<Rightarrow> bool" where
  "nameless r = (\<not> truthy (map_of r ''name''))"

text \<open>A content type whose property array holds only records without a name.\<close>

definition nameless_example :: RawContentType where
  "nameless_example =
     \<lparr>raw_key = ''TeaserBlock'', raw_displayName = Some ''Teaser'', raw_description = None,
      raw_baseType = ''_component'', raw_compositionBehaviors = None,
      raw_properties = Some (PropsArray
        [[(''type'', JString ''string'')],
         [(''name'', JString []), (''type'', JString ''boolean'')]])\<rparr>"

subsection \<open>Notions for default values\<close>




subsection \<open>Notions for references\<close>







subsection \<open>Notions for the layout of sequences and mappings\<close>

text \<open>
  The layout in the words of the specification. A sequence fits on one line when no
  element's text has a line break and the elements joined by comma and space are less
  than 60 wide. The inline form is that joined text in brackets. The multi-line form at
  the enclosing level \<open>n\<close> puts every element on a line of its own, two spaces deeper
  than the enclosing level and followed by a comma, and closes the bracket at the
  enclosing level. A mapping has one line per entry in the same way, the key bare when
  it is an identifier and in quotes otherwise.
\<close>

definition fits_inline :: "string list \<Rightarrow> bool" where
  "fits_inline items = (list_all (\<lambda>i. nl \<notin> set i) items \<and> length (join '', '' items) < 60)"

definition inline_sequence :: "string list \<Rightarrow> string" where
  "inline_sequence items = ''['' @ join '', '' items @ '']''"

definition multiline_sequence :: "nat \<Rightarrow> string list \<Rightarrow> string" where
  "multiline_sequence n items =
     ''['' @ concat (map (\<lambda>item. [nl] @ spaces n @ ''  '' @ item @ '','') items)
     @ [nl] @ spaces n @ '']''"

definition multiline_mapping :: "nat \<Rightarrow> (string \<times> json) list \<Rightarrow> string" where
  "multiline_mapping n es =
     ''{'' @ concat (map (\<lambda>e. [nl] @ spaces n @ ''  ''
                           @ (if is_identifier (fst e) then fst e else [sq] @ fst e @ [sq])
                           @ '': '' @ serialize (snd e) (n + 1) @ '','') es)
     @ [nl] @ spaces n @ ''}''"

text \<open>
  Sequences of joined width 13, 59 and 60, a sequence with an element that spans
  several lines, and a mapping with an identifier key and another key.
\<close>

definition short_sequence :: "json list" where
  "short_sequence = [JString ''a'', JNumber 1, JBool True]"

definition width59_sequence :: "json list" where
  "width59_sequence = [JString ''abcdefghijklmnopqrstuvwxyzabcdefghijklmnopqrstuvwxyzabcde'']"

definition width60_sequence :: "json list" where
  "width60_sequence = [JString ''abcdefghijklmnopqrstuvwxyzabcdefghijklmnopqrstuvwxyzabcdef'']"

definition nested_sequence :: "json list" where
  "nested_sequence = [JObject [(''a'', JNull)]]"

definition small_mapping :: "(string \<times> json) list" where
  "small_mapping = [(''name'', JString ''x''), (''max-length'', JNumber 255)]"

subsection \<open>Example values and inputs\<close>

text \<open>
  A mapping with the two keys \<^verbatim>\<open>x-\<close> and \<^verbatim>\<open>y-\<close>; a mapping with one key, which
  holds a quote, a line break and the text between the two keys of the first mapping;
  and a mapping whose key holds a quote.
\<close>

definition two_keys :: json where
  "two_keys = JObject [(''x-'', JBool True), (''y-'', JBool True)]"

definition one_key :: json where
  "one_key = JObject [(''x-'' @ [sq] @ '': true,'' @ [nl] @ ''  '' @ [sq] @ ''y-'', JBool True)]"

definition quoted_key :: json where
  "quoted_key = JObject [(''it'' @ [sq] @ ''s'', JBool True)]"

text \<open>A schema that defines the content type \<^verbatim>\<open>HomePage\<close> twice.\<close>

definition home_old :: RawContentType where
  "home_old = \<lparr>raw_key = ''HomePage'', raw_displayName = Some ''Old home'',
     raw_description = None, raw_baseType = ''_page'', raw_compositionBehaviors = None,
     raw_properties = None\<rparr>"

definition home_new :: RawContentType where
  "home_new = home_old\<lparr>raw_displayName := Some ''New home''\<rparr>"

definition duplicate_input :: TypesJson where
  "duplicate_input = \<lparr>contentTypes_in = Some [home_old, home_new], displayTemplates_in = None\<rparr>"

definition categorized_page :: "RawContentType \<Rightarrow> CategorizedContentType" where
  "categorized_page raw = \<lparr>definition_of = normalize_ct raw, category = Pages, dependencies = []\<rparr>"

subsection \<open>Notions for the order of generation\<close>









subsection \<open>Notions for the mapping of the model and for cyclic models\<close>

text \<open>
  The entry that the parser makes of one definition (none for a skipped one), and the
  entry of the latest definition with a given key among those that are not skipped.
\<close>

definition parsed_entry :: "RawContentType \<Rightarrow> CategorizedContentType option" where
  "parsed_entry raw =
     map_option (\<lambda>cat. \<lparr>definition_of = normalize_ct raw, category = cat,
                          dependencies = extractDependencies (properties (normalize_ct raw))\<rparr>)
       (categorizeContentType (normalize_ct raw))"

definition latest :: "string \<Rightarrow> RawContentType list \<Rightarrow> CategorizedContentType option" where
  "latest k raws =
     (case filter (\<lambda>raw. raw_key raw = k \<and> parsed_entry raw \<noteq> None) raws of
        [] \<Rightarrow> None
      | r # rs \<Rightarrow> parsed_entry (last (r # rs)))"

text \<open>
  What a visit achieves in every model, cyclic or not: the result stays a duplicate-free
  list of visited keys of the model, the visited keys grow by the keys asked for, and
  the keys that are visited but not yet in the result are the same as before.
\<close>

definition visit_cover :: "ParsedTypes \<Rightarrow> string list \<Rightarrow> string set \<times> string list
    \<Rightarrow> string set \<times> string list \<Rightarrow> bool" where
  "visit_cover parsed ks st st' =
     (set (snd st') \<subseteq> fst st' \<inter> model_keys parsed \<and> distinct (snd st')
      \<and> fst st \<subseteq> fst st' \<and> set ks \<subseteq> fst st' \<and> gray parsed st' = gray parsed st)"

text \<open>Two content types that depend on each other.\<close>

definition cyclic_example :: ParsedTypes where
  "cyclic_example =
     \<lparr>contentTypes =
        [(''LeftBlock'', \<lparr>definition_of = mk_ct ''LeftBlock'' ''_component'', category = Blocks,
            dependencies = [''RightBlock'']\<rparr>),
         (''RightBlock'', \<lparr>definition_of = mk_ct ''RightBlock'' ''_component'', category = Blocks,
            dependencies = [''LeftBlock'']\<rparr>)],
      displayTemplates = [],
      byCategory = (\<lambda>c. [])\<rparr>"

section \<open>Categorization is total and ordered\<close>

lemma endsWith_suffix: "endsWith s t = suffix t s"
proof
  assume "endsWith s t"
  then have "s = take (length s - length t) s @ t"
    by (metis append_take_drop_id endsWith_def)
  then show "suffix t s"
    by (rule suffixI)
next
  assume "suffix t s"
  then obtain zs where "s = zs @ t"
    by (auto simp: suffix_def)
  then show "endsWith s t"
    by (simp add: endsWith_def)
qed

text \<open>
  Claim C1. For every content type the categorizer returns a verdict that depends on
  the base type and the key only: skip for the three media base types whatever the
  key, pages for \<^verbatim>\<open>_page\<close>, for \<^verbatim>\<open>_component\<close> settings when the key ends with
  \<^verbatim>\<open>Settings\<close>, else elements when it ends with \<^verbatim>\<open>Element\<close>, else blocks, and
  blocks for every other base type; the rules apply in this order and the first that
  matches decides. So \<^verbatim>\<open>FooSettings\<close>, \<^verbatim>\<open>FooElement\<close> and \<^verbatim>\<open>Foo\<close> are settings,
  elements and blocks as components, and the key plays no part under another base type.
\<close>

theorem categorizeContentType_spec:
  "verdict_of (categorizeContentType ct) = categorize_spec (baseType ct) (key ct)
   \<and> categorizeContentType (mk_ct ''FooSettings'' ''_component'') = Some Settings
   \<and> categorizeContentType (mk_ct ''FooElement'' ''_component'') = Some Elements
   \<and> categorizeContentType (mk_ct ''Foo'' ''_component'') = Some Blocks
   \<and> categorizeContentType (mk_ct ''FooSettings'' ''_video'') = None
   \<and> categorizeContentType (mk_ct ''FooSettings'' ''_page'') = Some Pages
   \<and> categorizeContentType (mk_ct ''FooSettings'' ''_experience'') = Some Blocks"
proof -
  have "verdict_of (categorizeContentType ct) = categorize_spec (baseType ct) (key ct)"
    by (simp add: categorizeContentType_def categorize_spec_def verdict_of_def
        SKIP_BASE_TYPES_def endsWith_suffix)
  then show ?thesis
    by (simp add: categorizeContentType_def SKIP_BASE_TYPES_def endsWith_def mk_ct_def)
qed

section \<open>The dependency order is topological\<close>

lemma dep_graph_iff:
  "(k, d) \<in> dep_graph parsed \<longleftrightarrow>
     k \<in> model_keys parsed \<and> d \<in> set (deps_of parsed k) \<and> d \<in> model_keys parsed"
  by (auto simp: dep_graph_def dep_edges_def model_keys_def)

lemma map_of_model_keys:
  "map_of (contentTypes parsed) k = Some ct \<Longrightarrow> k \<in> model_keys parsed"
  unfolding model_keys_def by (metis domI dom_map_of_conv_image_fst)

lemma map_of_not_model_keys:
  "map_of (contentTypes parsed) k = None \<Longrightarrow> k \<notin> model_keys parsed"
  unfolding model_keys_def by (metis domIff dom_map_of_conv_image_fst)

lemma deps_first_snoc:
  assumes "deps_first parsed order"
    and "\<forall>d\<in>set (deps_of parsed k). d \<in> model_keys parsed \<longrightarrow> d \<in> set order"
  shows "deps_first parsed (order @ [k])"
  unfolding deps_first_def
proof (intro allI impI ballI)
  fix i d
  assume i: "i < length (order @ [k])"
    and d: "d \<in> set (deps_of parsed ((order @ [k]) ! i))" "d \<in> model_keys parsed"
  show "\<exists>j<i. (order @ [k]) ! j = d"
  proof (cases "i < length order")
    case True
    with d assms(1) obtain j where "j < i" "order ! j = d"
      by (auto simp: deps_first_def nth_append)
    with True show ?thesis
      by (auto simp: nth_append intro!: exI[of _ j])
  next
    case False
    with i have "i = length order" by simp
    with d assms(2) have "d \<in> set order" by simp
    then obtain j where "j < length order" "order ! j = d"
      by (auto simp: in_set_conv_nth)
    with \<open>i = length order\<close> show ?thesis
      by (auto simp: nth_append intro!: exI[of _ j])
  qed
qed

lemma visit_correct:
  "acyclic (dep_graph parsed) \<Longrightarrow> visit_inv parsed st \<Longrightarrow> visit_pre parsed [k] st
     \<Longrightarrow> visit_post parsed [k] st (visit parsed k st)"
  "acyclic (dep_graph parsed) \<Longrightarrow> visit_inv parsed st \<Longrightarrow> visit_pre parsed ds st
     \<Longrightarrow> visit_post parsed ds st (visit_all parsed ds st)"
proof (induction parsed k st and parsed ds st rule: visit_visit_all.induct)
  case (1 parsed k visited result)
  let ?K = "model_keys parsed"
  let ?R = "dep_graph parsed"
  show ?case
  proof (cases "k \<in> visited")
    case True
    with "1.prems" show ?thesis
      by (simp add: visit_post_def)
  next
    case unvisited: False
    show ?thesis
    proof (cases "map_of (contentTypes parsed) k")
      case None
      then have "k \<notin> ?K"
        by (rule map_of_not_model_keys)
      with "1.prems" unvisited None show ?thesis
        by (auto simp: visit_post_def visit_inv_def gray_def)
    next
      case (Some ct)
      then have kK: "k \<in> ?K"
        by (rule map_of_model_keys)
      let ?st1 = "(insert k visited, result)"
      let ?st2 = "visit_all parsed (dependencies ct) ?st1"
      have deps: "deps_of parsed k = dependencies ct"
        using Some by (simp add: deps_of_def)
      have k_not_res: "k \<notin> set result"
        using "1.prems"(2) unvisited by (auto simp: visit_inv_def)
      have gray1: "gray parsed ?st1 = insert k (gray parsed (visited, result))"
        using kK k_not_res by (auto simp: gray_def)
      have inv1: "visit_inv parsed ?st1"
        using "1.prems"(2) by (auto simp: visit_inv_def)
      have pre1: "visit_pre parsed (dependencies ct) ?st1"
        unfolding visit_pre_def
      proof (intro ballI impI)
        fix d g
        assume d: "d \<in> set (dependencies ct)" "d \<in> ?K" and g: "g \<in> gray parsed ?st1"
        from d kK deps have edge: "(k, d) \<in> ?R"
          by (simp add: dep_graph_iff)
        show "(g, d) \<in> ?R\<^sup>+"
        proof (cases "g = k")
          case True
          with edge show ?thesis by auto
        next
          case False
          with g gray1 have "g \<in> gray parsed (visited, result)" by simp
          with "1.prems"(3) kK have "(g, k) \<in> ?R\<^sup>+"
            by (simp add: visit_pre_def)
          with edge show ?thesis by (auto intro: trancl_into_trancl)
        qed
      qed
      have post2: "visit_post parsed (dependencies ct) ?st1 ?st2"
        using "1.IH"[OF unvisited Some "1.prems"(1) inv1 pre1] .
      then have inv2: "visit_inv parsed ?st2"
        and sub2: "insert k visited \<subseteq> fst ?st2"
        and deps2: "set (dependencies ct) \<subseteq> fst ?st2"
        and gray2: "gray parsed ?st2 = insert k (gray parsed (visited, result))"
        by (simp_all add: visit_post_def gray1)
      have k_gray2: "k \<in> gray parsed ?st2"
        using gray2 by simp
      then have k_not_res2: "k \<notin> set (snd ?st2)"
        by (simp add: gray_def)
      have deps_done: "\<forall>d\<in>set (deps_of parsed k). d \<in> ?K \<longrightarrow> d \<in> set (snd ?st2)"
      proof (intro ballI impI, rule ccontr)
        fix d
        assume d: "d \<in> set (deps_of parsed k)" "d \<in> ?K" and no: "d \<notin> set (snd ?st2)"
        from d deps deps2 have "d \<in> fst ?st2" by auto
        with d no have "d \<in> gray parsed ?st2"
          by (simp add: gray_def)
        then have "d \<in> gray parsed ?st1"
          using gray1 gray2 by simp
        with pre1 d deps have "(d, d) \<in> ?R\<^sup>+"
          by (simp add: visit_pre_def)
        with "1.prems"(1) show False
          by (simp add: acyclic_def)
      qed
      have res: "visit parsed k (visited, result) = (fst ?st2, snd ?st2 @ [k])"
        using unvisited Some by (simp add: Let_def)
      have "visit_inv parsed (fst ?st2, snd ?st2 @ [k])"
        using inv2 sub2 kK k_not_res2 deps_first_snoc[OF _ deps_done]
        by (auto simp: visit_inv_def)
      moreover have "gray parsed (fst ?st2, snd ?st2 @ [k]) = gray parsed (visited, result)"
      proof -
        have "gray parsed (fst ?st2, snd ?st2 @ [k]) = gray parsed ?st2 - {k}"
          by (auto simp: gray_def)
        moreover have "k \<notin> gray parsed (visited, result)"
          using unvisited by (simp add: gray_def)
        ultimately show ?thesis
          using gray2 by auto
      qed
      ultimately show ?thesis
        unfolding res using sub2 by (auto simp: visit_post_def)
    qed
  qed
next
  case (2 parsed st)
  then show ?case
    by (simp add: visit_post_def)
next
  case (3 parsed d ds st)
  let ?st1 = "visit parsed d st"
  have "visit_pre parsed [d] st"
    using "3.prems"(3) by (simp add: visit_pre_def)
  then have post1: "visit_post parsed [d] st ?st1"
    using "3.IH"(1) "3.prems" by blast
  then have "visit_pre parsed ds ?st1"
    using "3.prems"(3) by (simp add: visit_pre_def visit_post_def)
  with post1 have "visit_post parsed ds ?st1 (visit_all parsed ds ?st1)"
    using "3.IH"(2) "3.prems"(1) by (simp add: visit_post_def)
  with post1 show ?case
    by (auto simp: visit_post_def)
qed

text \<open>
  Claim C2. When the dependency graph restricted to the keys of the model is acyclic,
  the orderer returns every key of the model exactly once, and each key comes strictly
  after all of its dependencies that are keys of the model. A dependency on an absent
  key is not in the output; \<open>visit\<close> is a total function, so such a key makes
  nothing fail.
\<close>

theorem buildDependencyOrder_topological:
  assumes "acyclic (dep_graph parsed)"
  shows "distinct (buildDependencyOrder parsed)
    \<and> set (buildDependencyOrder parsed) = model_keys parsed
    \<and> (\<forall>i<length (buildDependencyOrder parsed).
          \<forall>d\<in>set (deps_of parsed (buildDependencyOrder parsed ! i)).
            d \<in> model_keys parsed \<longrightarrow> (\<exists>j<i. buildDependencyOrder parsed ! j = d))"
proof -
  let ?st0 = "({}, []) :: string set \<times> string list"
  let ?keys = "map fst (contentTypes parsed)"
  have "visit_inv parsed ?st0"
    by (simp add: visit_inv_def deps_first_def)
  moreover have "visit_pre parsed ?keys ?st0"
    by (simp add: visit_pre_def gray_def)
  ultimately have post: "visit_post parsed ?keys ?st0 (visit_all parsed ?keys ?st0)"
    using assms by (simp add: visit_correct(2))
  then have inv: "visit_inv parsed (visit_all parsed ?keys ?st0)"
    and all: "model_keys parsed \<subseteq> fst (visit_all parsed ?keys ?st0)"
    and none_gray: "gray parsed (visit_all parsed ?keys ?st0) = {}"
    by (simp_all add: visit_post_def gray_def model_keys_def)
  from all none_gray have "model_keys parsed \<subseteq> set (buildDependencyOrder parsed)"
    by (auto simp: gray_def buildDependencyOrder_def)
  with inv show ?thesis
    by (auto simp: visit_inv_def buildDependencyOrder_def deps_first_def)
qed

lemma order_example_graph: "dep_graph order_example = {(''GridBlock'', ''ItemElement'')}"
  by (simp add: dep_graph_def dep_edges_def order_example_def model_keys_def deps_of_def)

lemma order_example_order: "buildDependencyOrder order_example = [''ItemElement'', ''GridBlock'']"
  by (simp add: buildDependencyOrder_def order_example_def)

theorem buildDependencyOrder_topological_witness:
  "acyclic (dep_graph order_example)
   \<and> buildDependencyOrder order_example = [''ItemElement'', ''GridBlock'']
   \<and> distinct (buildDependencyOrder order_example)
   \<and> set (buildDependencyOrder order_example) = model_keys order_example
   \<and> deps_of order_example ''GridBlock'' = [''ItemElement'', ''Missing'']
   \<and> (\<exists>j<1. buildDependencyOrder order_example ! j = ''ItemElement'')
   \<and> ''Missing'' \<notin> set (buildDependencyOrder order_example)"
proof -
  have "acyclic ({} :: (string \<times> string) set)"
    by (simp add: acyclic_def)
  then have ac: "acyclic (dep_graph order_example)"
    by (simp add: order_example_graph)
  have deps: "deps_of order_example ''GridBlock'' = [''ItemElement'', ''Missing'']"
    by (simp add: deps_of_def order_example_def)
  have keys: "model_keys order_example = {''GridBlock'', ''ItemElement''}"
    by (simp add: model_keys_def order_example_def)
  from buildDependencyOrder_topological[OF ac] ac deps show ?thesis
    by (simp add: order_example_order keys)
qed

section \<open>Dependency extraction returns the set of references\<close>

lemma set_set_spread: "set (set_spread acc xs) = set acc \<union> set xs"
  by (induction xs arbitrary: acc) auto

lemma distinct_set_spread: "distinct acc \<Longrightarrow> distinct (set_spread acc xs)"
  by (induction xs arbitrary: acc) auto

lemma as_key_Some: "as_key v = Some k \<longleftrightarrow> v = Some (JString k) \<and> k \<noteq> []"
proof (cases v)
  case None
  then show ?thesis by simp
next
  case (Some a)
  show ?thesis by (cases a) (auto simp: Some)
qed

lemma field_Some: "field v f = Some x \<longleftrightarrow> (\<exists>es. v = Some (JObject es) \<and> map_of es f = Some x)"
proof (cases v)
  case None
  then show ?thesis by simp
next
  case (Some a)
  show ?thesis by (cases a) (auto simp: Some)
qed

lemma array_ref_iff:
  "array_ref prop k \<longleftrightarrow>
     map_of prop ''type'' = Some (JString ''array'')
     \<and> field (map_of prop ''items'') ''type'' = Some (JString ''component'')
     \<and> as_key (field (map_of prop ''items'') ''contentType'') = Some k"
proof (cases "map_of prop ''items''")
  case None
  then show ?thesis by (simp add: array_ref_def)
next
  case (Some a)
  show ?thesis by (cases a) (auto simp: Some array_ref_def as_key_Some)
qed

lemma direct_ref_iff:
  "direct_ref prop k \<longleftrightarrow>
     map_of prop ''type'' = Some (JString ''component'')
     \<and> as_key (map_of prop ''contentType'') = Some k"
  by (auto simp: direct_ref_def as_key_Some)

lemma set_prop_deps: "k \<in> set (prop_deps prop) \<longleftrightarrow> array_ref prop k \<or> direct_ref prop k"
proof -
  let ?A = "map_of prop ''type'' = Some (JString ''array'')
         \<and> field (map_of prop ''items'') ''type'' = Some (JString ''component'')"
  let ?x = "as_key (field (map_of prop ''items'') ''contentType'')"
  let ?B = "map_of prop ''type'' = Some (JString ''component'')"
  let ?y = "as_key (map_of prop ''contentType'')"
  have "prop_deps prop =
      (if ?A then (case ?x of None \<Rightarrow> [] | Some k \<Rightarrow> [k]) else [])
      @ (if ?B then (case ?y of None \<Rightarrow> [] | Some k \<Rightarrow> [k]) else [])"
    by (simp only: prop_deps_def)
  moreover have "k \<in> set ((if a then (case x of None \<Rightarrow> [] | Some k \<Rightarrow> [k]) else [])
      @ (if b then (case y of None \<Rightarrow> [] | Some k \<Rightarrow> [k]) else []))
      \<longleftrightarrow> (a \<and> x = Some k) \<or> (b \<and> y = Some k)" for a b and x y :: "string option"
    by (cases a; cases b; cases x; cases y; simp; blast)
  ultimately show ?thesis
    by (simp only: array_ref_iff direct_ref_iff conj_assoc)
qed

lemma count_list_distinct: "distinct xs \<Longrightarrow> x \<in> set xs \<Longrightarrow> count_list xs x = 1"
  by (induction xs) auto

text \<open>
  Claim C3. Without a property mapping there are no dependencies. For every property
  mapping the result holds exactly the content-type keys that some property refers to,
  through its array items or directly, and holds each of them once: a key referenced
  twice occurs exactly once in the result.
\<close>

theorem extractDependencies_dedup:
  "extractDependencies None = []
   \<and> set (extractDependencies (Some ps)) = {k. referenced ps k}
   \<and> distinct (extractDependencies (Some ps))
   \<and> (\<forall>k. referenced ps k \<longrightarrow> count_list (extractDependencies (Some ps)) k = 1)"
proof -
  have s: "set (extractDependencies (Some ps)) = {k. referenced ps k}"
    by (auto simp: extractDependencies_def set_set_spread referenced_def list_ex_iff set_prop_deps)
  have d: "distinct (extractDependencies (Some ps))"
    by (simp add: extractDependencies_def distinct_set_spread)
  from s d show ?thesis
    by (simp add: extractDependencies_def count_list_distinct)
qed

theorem extractDependencies_dedup_witness:
  "referenced twice_example ''FeatureItemElement''
   \<and> extractDependencies (Some twice_example) = [''FeatureItemElement'']
   \<and> count_list (extractDependencies (Some twice_example)) ''FeatureItemElement'' = 1"
proof -
  have r: "referenced twice_example ''FeatureItemElement''"
    by (simp add: referenced_def twice_example_def array_ref_def direct_ref_def)
  have e: "extractDependencies (Some twice_example) = [''FeatureItemElement'']"
    by (simp add: extractDependencies_def twice_example_def prop_deps_def)
  from extractDependencies_dedup[of twice_example] r e show ?thesis
    by blast
qed

section \<open>Objects as association lists\<close>

lemma map_of_js_insert_index:
  "map_of (js_insert_index n k v obj) k' = (if k' = k then Some v else map_of obj k')" if "k \<notin> fst ` set obj"
  using that by (induction obj) auto

lemma map_of_replace_same:
  "map_of (map (\<lambda>e. if fst e = k then (k, v) else e) obj) k
     = (if map_of obj k = None then None else Some v)"
  by (induction obj) auto

lemma map_of_replace_other:
  "k' \<noteq> k \<Longrightarrow> map_of (map (\<lambda>e. if fst e = k then (k, v) else e) obj) k' = map_of obj k'"
  by (induction obj) auto

lemma map_of_js_set: "map_of (js_set obj k v) k' = (if k' = k then Some v else map_of obj k')"
proof (cases "k \<in> fst ` set obj")
  case True
  then have "map_of obj k \<noteq> None"
    by (simp add: map_of_eq_None_iff)
  with True show ?thesis
    by (auto simp: js_set_def map_of_replace_same map_of_replace_other)
next
  case False
  then have "map_of obj k = None"
    by (simp add: map_of_eq_None_iff)
  with False show ?thesis
    by (auto simp: js_set_def map_of_js_insert_index map_add_def split: option.splits)
qed

lemma keys_js_set: "fst ` set (js_set obj k v) = insert k (fst ` set obj)"
proof -
  have "dom (map_of (js_set obj k v)) = insert k (dom (map_of obj))"
    by (auto simp: map_of_js_set dom_def)
  then show ?thesis
    by (simp add: dom_map_of_conv_image_fst)
qed

lemma map_of_map_set: "map_of (map_set m k v) k' = (if k' = k then Some v else map_of m k')"
proof (cases "k \<in> fst ` set m")
  case True
  then have "map_of m k \<noteq> None"
    by (simp add: map_of_eq_None_iff)
  with True show ?thesis
    by (auto simp: map_set_def map_of_replace_same map_of_replace_other)
next
  case False
  then have "map_of m k = None"
    by (simp add: map_of_eq_None_iff)
  with False show ?thesis
    by (auto simp: map_set_def map_add_def split: option.splits)
qed

section \<open>A property array without names is no property collection\<close>

lemma falsy_no_key: "\<not> truthy v \<Longrightarrow> as_key v = None"
proof (cases v)
  case None
  then show ?thesis by simp
next
  case (Some a)
  assume "\<not> truthy v"
  with Some show ?thesis by (cases a) auto
qed

lemma normalize_loop_nameless:
  "list_all nameless rs \<Longrightarrow> normalize_loop result rs = result"
  by (induction rs arbitrary: result) (auto simp: nameless_def falsy_no_key)

lemma keys_string_entry: "fst ` set (string_entry f s) \<subseteq> {f}"
  by (auto simp: string_entry_def split: option.splits if_splits)

lemma contentTypeObject_no_properties:
  assumes "properties (definition_of ct) = None"
  shows "''properties'' \<notin> fst ` set (fst (contentTypeObject ct parsed refs verbose))"
proof -
  have "''properties'' \<notin> fst ` set (string_entry ''displayName'' s)"
       "''properties'' \<notin> fst ` set (string_entry ''description'' s)" for s
    using keys_string_entry by fastforce+
  with assms show ?thesis
    by (auto simp: contentTypeObject_def Let_def split: option.splits)
qed

text \<open>
  Claim C10. When every record of a property array lacks a name (in particular when
  the array is empty), normalization returns no property collection at all, not an
  empty mapping; a content type normalized from such an array has no properties, and
  the object that the generator emits for it has no \<^verbatim>\<open>properties\<close> field.
\<close>

theorem nameless_records_no_properties:
  assumes "list_all nameless rs"
  shows "normalizeProperties (Some (PropsArray rs)) = None
    \<and> (raw_properties raw = Some (PropsArray rs) \<and> definition_of ct = normalize_ct raw
        \<longrightarrow> properties (definition_of ct) = None
          \<and> ''properties'' \<notin> fst ` set (fst (contentTypeObject ct parsed refs verbose)))"
proof -
  have n: "normalizeProperties (Some (PropsArray rs)) = None"
    using assms by (simp add: normalizeProperties_def normalize_loop_nameless)
  then show ?thesis
    by (auto simp: normalize_ct_def contentTypeObject_no_properties)
qed

theorem nameless_records_no_properties_witness:
  "list_all nameless [[(''type'', JString ''string'')], [(''name'', JString []), (''type'', JString ''boolean'')]]
   \<and> normalizeProperties (raw_properties nameless_example) = None
   \<and> normalizeProperties (Some (PropsArray [])) = None
   \<and> fst (contentTypeObject
        \<lparr>definition_of = normalize_ct nameless_example, category = Blocks, dependencies = []\<rparr>
        \<lparr>contentTypes = [], displayTemplates = [], byCategory = (\<lambda>c. [])\<rparr> [] False)
      = [(''key'', JString ''TeaserBlock''), (''displayName'', JString ''Teaser''),
         (''baseType'', JString ''_component'')]"
proof -
  let ?rs = "[[(''type'', JString ''string'')], [(''name'', JString []), (''type'', JString ''boolean'')]]"
  have h: "list_all nameless ?rs"
    by (simp add: nameless_def)
  have e: "list_all nameless []"
    by simp
  have p: "raw_properties nameless_example = Some (PropsArray ?rs)"
    by (simp add: nameless_example_def)
  have "properties (normalize_ct nameless_example) = None"
    using nameless_records_no_properties[OF h, of nameless_example
        "\<lparr>definition_of = normalize_ct nameless_example, category = Blocks, dependencies = []\<rparr>"] p
    by simp
  then have "fst (contentTypeObject
        \<lparr>definition_of = normalize_ct nameless_example, category = Blocks, dependencies = []\<rparr>
        \<lparr>contentTypes = [], displayTemplates = [], byCategory = (\<lambda>c. [])\<rparr> [] False)
      = [(''key'', JString ''TeaserBlock''), (''displayName'', JString ''Teaser''),
         (''baseType'', JString ''_component'')]"
    by (simp add: contentTypeObject_def normalize_ct_def nameless_example_def string_entry_def)
  with h p nameless_records_no_properties[OF h] nameless_records_no_properties[OF e] show ?thesis
    by simp
qed

section \<open>Default values are elided in non-verbose mode only\<close>













section \<open>References to present and to absent content types\<close>



















section \<open>The layout of sequences and mappings\<close>

lemma spaces_Suc: "spaces (Suc n) = spaces n @ ''  ''"
proof -
  have "replicate (Suc n) ''  '' = replicate n ''  '' @ [''  '']"
    by (simp add: replicate_append_same)
  then show ?thesis
    by (simp add: spaces_def)
qed

lemma length_spaces: "length (spaces n) = 2 * n"
  by (induction n) (simp_all add: spaces_Suc, simp add: spaces_def)

lemma join_lines:
  "xs \<noteq> [] \<Longrightarrow> sep @ join sep (map f xs) = concat (map (\<lambda>x. sep @ f x) xs)"
proof (induction xs rule: induct_list012)
  case 1
  then show ?case by simp
next
  case (2 x)
  show ?case by simp
next
  case (3 x y zs)
  then show ?case by simp
qed

lemma set_join: "set (join sep xs) \<subseteq> set sep \<union> \<Union> (set ` set xs)"
  by (induction sep xs rule: join.induct) auto

lemma serialize_sequence:
  assumes "vs \<noteq> []"
  shows "serialize (JArray vs) n =
    (if fits_inline (map (\<lambda>v. serialize v (n + 1)) vs)
     then inline_sequence (map (\<lambda>v. serialize v (n + 1)) vs)
     else multiline_sequence n (map (\<lambda>v. serialize v (n + 1)) vs))"
proof -
  let ?items = "map (\<lambda>v. serialize v (n + 1)) vs"
  have "[nl] @ join [nl] (map (\<lambda>item. spaces (n + 1) @ item @ '','') ?items)
      = concat (map (\<lambda>item. [nl] @ spaces (n + 1) @ item @ '','') ?items)"
    using assms by (intro join_lines) simp
  then have "''['' @ [nl] @ join [nl] (map (\<lambda>item. spaces (n + 1) @ item @ '','') ?items)
        @ [nl] @ spaces n @ '']''
      = multiline_sequence n ?items"
    by (simp add: multiline_sequence_def spaces_Suc)
  with assms show ?thesis
    by (simp add: fits_inline_def inline_sequence_def Let_def)
qed

lemma serialize_mapping:
  assumes "es \<noteq> []"
  shows "serialize (JObject es) n = multiline_mapping n es"
proof -
  have "[nl] @ join [nl] (map (\<lambda>e. spaces (n + 1)
          @ (if is_identifier (fst e) then fst e else [sq] @ fst e @ [sq])
          @ '': '' @ serialize (snd e) (n + 1) @ '','') es)
      = concat (map (\<lambda>e. [nl] @ spaces (n + 1)
          @ (if is_identifier (fst e) then fst e else [sq] @ fst e @ [sq])
          @ '': '' @ serialize (snd e) (n + 1) @ '','') es)"
    using assms by (rule join_lines)
  with assms show ?thesis
    by (simp add: multiline_mapping_def spaces_Suc)
qed

lemma inline_sequence_one_line:
  assumes "list_all (\<lambda>i. nl \<notin> set i) items"
  shows "nl \<notin> set (inline_sequence items)"
proof -
  have "nl \<notin> set '', ''"
    by (simp add: nl_def)
  with assms set_join[of "'', ''" items] have "nl \<notin> set (join '', '' items)"
    by (auto simp: list_all_iff)
  then show ?thesis
    by (simp add: inline_sequence_def nl_def)
qed

lemma multiline_sequence_has_break: "nl \<in> set (multiline_sequence n items)"
  by (simp add: multiline_sequence_def)

lemma multiline_mapping_has_break: "nl \<in> set (multiline_mapping n es)"
  by (simp add: multiline_mapping_def)

text \<open>
  Claim C7. A non-empty sequence is emitted in the inline form exactly when it fits on
  one line (no element with a line break, joined width under 60), and in the multi-line
  form otherwise; the output is free of line breaks exactly in the first case. A
  non-empty mapping is always emitted in the multi-line form, one entry per line with
  the key bare exactly when it is an identifier, and so always has a line break. One
  level of indentation is two spaces.
\<close>

theorem serialize_layout:
  "(vs \<noteq> [] \<longrightarrow>
      serialize (JArray vs) n =
        (if fits_inline (map (\<lambda>v. serialize v (n + 1)) vs)
         then inline_sequence (map (\<lambda>v. serialize v (n + 1)) vs)
         else multiline_sequence n (map (\<lambda>v. serialize v (n + 1)) vs))
      \<and> (nl \<notin> set (serialize (JArray vs) n)
           \<longleftrightarrow> fits_inline (map (\<lambda>v. serialize v (n + 1)) vs)))
   \<and> (es \<noteq> [] \<longrightarrow>
      serialize (JObject es) n = multiline_mapping n es
      \<and> nl \<in> set (serialize (JObject es) n))
   \<and> length (spaces n) = 2 * n"
proof (intro conjI impI)
  assume vs: "vs \<noteq> []"
  show "serialize (JArray vs) n =
        (if fits_inline (map (\<lambda>v. serialize v (n + 1)) vs)
         then inline_sequence (map (\<lambda>v. serialize v (n + 1)) vs)
         else multiline_sequence n (map (\<lambda>v. serialize v (n + 1)) vs))"
    using vs by (rule serialize_sequence)
  show "nl \<notin> set (serialize (JArray vs) n)
      \<longleftrightarrow> fits_inline (map (\<lambda>v. serialize v (n + 1)) vs)"
    unfolding serialize_sequence[OF vs]
    using inline_sequence_one_line[of "map (\<lambda>v. serialize v (n + 1)) vs"]
      multiline_sequence_has_break[of n "map (\<lambda>v. serialize v (n + 1)) vs"]
    by (auto simp: fits_inline_def)
next
  assume es: "es \<noteq> []"
  show "serialize (JObject es) n = multiline_mapping n es"
    using es by (rule serialize_mapping)
  show "nl \<in> set (serialize (JObject es) n)"
    unfolding serialize_mapping[OF es] by (rule multiline_mapping_has_break)
next
  show "length (spaces n) = 2 * n"
    by (rule length_spaces)
qed

lemma show_int_small: "show_int 1 = ''1''" "show_int 255 = ''255''"
  by (simp_all add: show_int_def)

theorem serialize_layout_witness:
  "short_sequence \<noteq> [] \<and> small_mapping \<noteq> []
   \<and> serialize (JArray short_sequence) 1 = ''['' @ [sq] @ ''a'' @ [sq] @ '', 1, true]''
   \<and> nl \<notin> set (serialize (JArray short_sequence) 1)
   \<and> serialize (JArray width59_sequence) 0 = ''['' @ [sq] @ ''abcdefghijklmnopqrstuvwxyzabcdefghijklmnopqrstuvwxyzabcde'' @ [sq] @ '']''
   \<and> serialize (JArray width60_sequence) 0
       = ''['' @ [nl] @ ''  '' @ [sq] @ ''abcdefghijklmnopqrstuvwxyzabcdefghijklmnopqrstuvwxyzabcdef'' @ [sq] @ '','' @ [nl] @ '']''
   \<and> serialize (JArray nested_sequence) 1
       = ''['' @ [nl] @ ''    {'' @ [nl] @ ''      a: undefined,'' @ [nl] @ ''    },'' @ [nl] @ ''  ]''
   \<and> serialize (JObject small_mapping) 1
       = ''{'' @ [nl] @ ''    name: '' @ [sq] @ ''x'' @ [sq] @ '','' @ [nl]
         @ ''    '' @ [sq] @ ''max-length'' @ [sq] @ '': 255,'' @ [nl] @ ''  }''
   \<and> nl \<in> set (serialize (JObject small_mapping) 1)"
proof -
  have ne: "short_sequence \<noteq> []" "small_mapping \<noteq> []"
    by (simp_all add: short_sequence_def small_mapping_def)
  have ids: "is_identifier ''name''" "\<not> is_identifier ''max-length''" "is_identifier ''a''"
    by (simp_all add: is_identifier_def ident_start_def ident_part_def)
  have esc: "escape_quotes ''a'' = ''a''" "escape_quotes ''x'' = ''x''"
    "escape_quotes ''abcdefghijklmnopqrstuvwxyzabcdefghijklmnopqrstuvwxyzabcde'' = ''abcdefghijklmnopqrstuvwxyzabcdefghijklmnopqrstuvwxyzabcde''"
    "escape_quotes ''abcdefghijklmnopqrstuvwxyzabcdefghijklmnopqrstuvwxyzabcdef'' = ''abcdefghijklmnopqrstuvwxyzabcdefghijklmnopqrstuvwxyzabcdef''"
    by (simp_all add: escape_quotes_def sq_def)
  have s1: "serialize (JArray short_sequence) 1 = ''['' @ [sq] @ ''a'' @ [sq] @ '', 1, true]''"
    by (simp add: short_sequence_def esc show_int_small nl_def sq_def)
  have s2: "serialize (JArray width59_sequence) 0 = ''['' @ [sq] @ ''abcdefghijklmnopqrstuvwxyzabcdefghijklmnopqrstuvwxyzabcde'' @ [sq] @ '']''"
    by (simp add: width59_sequence_def esc nl_def sq_def)
  have s3: "serialize (JArray width60_sequence) 0
       = ''['' @ [nl] @ ''  '' @ [sq] @ ''abcdefghijklmnopqrstuvwxyzabcdefghijklmnopqrstuvwxyzabcdef'' @ [sq] @ '','' @ [nl] @ '']''"
    by (simp add: width60_sequence_def esc nl_def sq_def spaces_def)
  have s4: "serialize (JArray nested_sequence) 1
       = ''['' @ [nl] @ ''    {'' @ [nl] @ ''      a: undefined,'' @ [nl] @ ''    },'' @ [nl] @ ''  ]''"
    by (simp add: nested_sequence_def ids spaces_def numeral_2_eq_2 numeral_3_eq_3)
  have s5: "serialize (JObject small_mapping) 1
       = ''{'' @ [nl] @ ''    name: '' @ [sq] @ ''x'' @ [sq] @ '','' @ [nl]
         @ ''    '' @ [sq] @ ''max-length'' @ [sq] @ '': 255,'' @ [nl] @ ''  }''"
    by (simp add: small_mapping_def ids esc show_int_small spaces_def numeral_2_eq_2)
  have f: "fits_inline (map (\<lambda>v. serialize v (1 + 1)) short_sequence)"
    by (simp add: fits_inline_def short_sequence_def esc show_int_small nl_def sq_def)
  note layout = serialize_layout[of short_sequence 1 small_mapping]
  from layout ne f have one_line: "nl \<notin> set (serialize (JArray short_sequence) 1)"
    by blast
  from layout ne have broken: "nl \<in> set (serialize (JObject small_mapping) 1)"
    by blast
  from ne s1 one_line s2 s3 s4 s5 broken show ?thesis
    by blast
qed

section \<open>Serialization is not injective\<close>

lemma not_identifier_dash: "\<not> is_identifier (''x-'' @ rest)" "\<not> is_identifier ''y-''"
  "\<not> is_identifier (''it'' @ [sq] @ ''s'')"
  by (simp_all add: is_identifier_def ident_start_def ident_part_def sq_def)

text \<open>
  Claim C6 says that the emitted text can be parsed back to the value. The serializer
  escapes the quotes of a string value, but it puts a key in quotes as it is and leaves
  a backslash of a string value alone. Two different mappings have the same text, so no
  parser gives back every value; a key with a quote ends its own literal, and the string
  that is one backslash is emitted as a quote, a backslash and a quote.
\<close>

theorem serialize_collision:
  "two_keys \<noteq> one_key
   \<and> serializeValue two_keys 0
       = ''{'' @ [nl] @ ''  '' @ [sq] @ ''x-'' @ [sq] @ '': true,'' @ [nl]
         @ ''  '' @ [sq] @ ''y-'' @ [sq] @ '': true,'' @ [nl] @ ''}''
   \<and> serializeValue one_key 0 = serializeValue two_keys 0
   \<and> \<not> (\<exists>parse. \<forall>v. parse (serializeValue v 0) = v)
   \<and> serializeValue quoted_key 0
       = ''{'' @ [nl] @ ''  '' @ [sq] @ ''it'' @ [sq] @ ''s'' @ [sq] @ '': true,'' @ [nl] @ ''}''
   \<and> serializeValue (JString [bsl]) 0 = [sq, bsl, sq]"
proof -
  have ne: "two_keys \<noteq> one_key"
    by (simp add: two_keys_def one_key_def)
  have a: "serializeValue two_keys 0
       = ''{'' @ [nl] @ ''  '' @ [sq] @ ''x-'' @ [sq] @ '': true,'' @ [nl]
         @ ''  '' @ [sq] @ ''y-'' @ [sq] @ '': true,'' @ [nl] @ ''}''"
    using not_identifier_dash(1)[of "[]"] not_identifier_dash(2)
    by (simp add: serializeValue_def two_keys_def spaces_def)
  have b: "serializeValue one_key 0
       = ''{'' @ [nl] @ ''  '' @ [sq] @ ''x-'' @ [sq] @ '': true,'' @ [nl]
         @ ''  '' @ [sq] @ ''y-'' @ [sq] @ '': true,'' @ [nl] @ ''}''"
    using not_identifier_dash(1)[of "[sq] @ '': true,'' @ [nl] @ ''  '' @ [sq] @ ''y-''"]
    by (simp add: serializeValue_def one_key_def spaces_def)
  have c: "\<not> (\<exists>parse. \<forall>v. parse (serializeValue v 0) = v)"
  proof
    assume "\<exists>parse. \<forall>v. parse (serializeValue v 0) = v"
    then obtain parse where p: "\<And>v. parse (serializeValue v 0) = v"
      by blast
    have "two_keys = parse (serializeValue two_keys 0)"
      by (simp only: p)
    also have "\<dots> = parse (serializeValue one_key 0)"
      by (simp only: a b)
    also have "\<dots> = one_key"
      by (simp only: p)
    finally show False
      using ne by simp
  qed
  have d: "serializeValue quoted_key 0
       = ''{'' @ [nl] @ ''  '' @ [sq] @ ''it'' @ [sq] @ ''s'' @ [sq] @ '': true,'' @ [nl] @ ''}''"
    using not_identifier_dash(3)
    by (simp add: serializeValue_def quoted_key_def spaces_def)
  have e: "serializeValue (JString [bsl]) 0 = [sq, bsl, sq]"
    by (simp add: serializeValue_def escape_quotes_def bsl_def sq_def)
  from ne a b c d e show ?thesis
    by simp
qed

section \<open>A key defined twice\<close>

lemma set_insort_cmp: "set (insort_cmp cmp x xs) = insert x (set xs)"
  by (induction xs) auto

lemma set_sort_cmp: "set (sort_cmp cmp xs) = set xs"
  by (induction xs) (simp_all add: sort_cmp_def set_insort_cmp)

lemma length_insort_cmp: "length (insort_cmp cmp x xs) = Suc (length xs)"
  by (induction xs) auto

lemma length_sort_cmp: "length (sort_cmp cmp xs) = length xs"
  by (induction xs) (simp_all add: sort_cmp_def length_insort_cmp)

text \<open>
  Claim C8 says that of two definitions with the same key the model holds the later one
  only, in the mapping and in the grouping. On the schema that defines \<^verbatim>\<open>HomePage\<close>
  twice the mapping holds the later definition only, but the grouping of the pages
  holds both definitions, whatever the comparison of keys is.
\<close>

theorem duplicate_key_kept_twice:
  "contentTypes (parseTypesJson cmp duplicate_input) = [(''HomePage'', categorized_page home_new)]
   \<and> set (byCategory (parseTypesJson cmp duplicate_input) Pages)
       = {categorized_page home_old, categorized_page home_new}
   \<and> length (byCategory (parseTypesJson cmp duplicate_input) Pages) = 2
   \<and> categorized_page home_old \<noteq> categorized_page home_new"
proof -
  have cat: "categorizeContentType (normalize_ct home_old) = Some Pages"
    "categorizeContentType (normalize_ct home_new) = Some Pages"
    by (simp_all add: categorizeContentType_def normalize_ct_def home_old_def home_new_def
        SKIP_BASE_TYPES_def)
  have props: "properties (normalize_ct home_old) = None" "properties (normalize_ct home_new) = None"
    by (simp_all add: normalize_ct_def home_old_def home_new_def normalizeProperties_def)
  have keys: "key (normalize_ct home_old) = ''HomePage''" "key (normalize_ct home_new) = ''HomePage''"
    by (simp_all add: normalize_ct_def home_old_def home_new_def)
  have st: "fst (foldl parse_step ([], \<lambda>c. []) [home_old, home_new])
      = [(''HomePage'', categorized_page home_new)]"
    "snd (foldl parse_step ([], \<lambda>c. []) [home_old, home_new]) Pages
      = [categorized_page home_old, categorized_page home_new]"
    by (simp_all add: parse_step_def cat props keys extractDependencies_def map_set_def
        categorized_page_def Let_def)
  have ne: "categorized_page home_old \<noteq> categorized_page home_new"
    by (simp add: categorized_page_def normalize_ct_def home_old_def home_new_def)
  from st ne show ?thesis
    by (simp add: parseTypesJson_def duplicate_input_def set_sort_cmp length_sort_cmp)
qed

section \<open>Generation is a function with a fixed order\<close>








section \<open>The mapping of the parsed model\<close>

lemma map_fst_map_set_same:
  "k \<in> fst ` set m \<Longrightarrow> map fst (map_set m k v) = map fst m"
  by (induction m) (auto simp: map_set_def)

lemma distinct_map_set: "distinct (map fst m) \<Longrightarrow> distinct (map fst (map_set m k v))"
proof (cases "k \<in> fst ` set m")
  case True
  assume "distinct (map fst m)"
  with True show ?thesis
    by (simp add: map_fst_map_set_same)
next
  case False
  assume "distinct (map fst m)"
  with False show ?thesis
    by (simp add: map_set_def)
qed

lemma parse_step_entry:
  "parse_step st raw =
     (case parsed_entry raw of
        None \<Rightarrow> st
      | Some e \<Rightarrow> (map_set (fst st) (raw_key raw) e, (snd st)(category e := snd st (category e) @ [e])))"
  by (simp add: parse_step_def parsed_entry_def normalize_ct_def Let_def split: option.splits)

lemma distinct_parse_step:
  "distinct (map fst (fst st)) \<Longrightarrow> distinct (map fst (fst (parse_step st raw)))"
  by (cases "parsed_entry raw") (simp_all add: parse_step_entry distinct_map_set)

lemma distinct_parse_loop:
  "distinct (map fst (fst st)) \<Longrightarrow> distinct (map fst (fst (foldl parse_step st raws)))"
  by (induction raws arbitrary: st) (simp_all add: distinct_parse_step)

lemma map_of_parse_step:
  "map_of (fst (parse_step st raw)) k =
     (if raw_key raw = k \<and> parsed_entry raw \<noteq> None then parsed_entry raw
      else map_of (fst st) k)"
  by (cases "parsed_entry raw") (auto simp: parse_step_entry map_of_map_set)

lemma latest_Cons:
  "latest k (r # rs) =
     (case latest k rs of
        Some e \<Rightarrow> Some e
      | None \<Rightarrow> if raw_key r = k then parsed_entry r else None)"
proof -
  let ?P = "\<lambda>raw. raw_key raw = k \<and> parsed_entry raw \<noteq> None"
  show ?thesis
  proof (cases "filter ?P rs")
    case Nil
    then show ?thesis
      by (auto simp: latest_def)
  next
    case (Cons a as)
    then have "last (a # as) \<in> set (filter ?P rs)"
      by (metis last_in_set list.distinct(1))
    then have "parsed_entry (last (a # as)) \<noteq> None"
      by simp
    with Cons show ?thesis
      by (auto simp: latest_def)
  qed
qed

lemma map_of_parse_loop:
  "map_of (fst (foldl parse_step st raws)) k =
     (case latest k raws of None \<Rightarrow> map_of (fst st) k | Some e \<Rightarrow> Some e)"
proof (induction raws arbitrary: st)
  case Nil
  show ?case by (simp add: latest_def)
next
  case (Cons r rs)
  have "map_of (fst (foldl parse_step st (r # rs))) k =
      (case latest k rs of None \<Rightarrow> map_of (fst (parse_step st r)) k | Some e \<Rightarrow> Some e)"
    by (simp add: Cons.IH)
  then show ?case
    by (auto simp: latest_Cons map_of_parse_step split: option.splits)
qed

text \<open>
  The mapping from keys to content types has one entry per key, and the entry of a key
  is that of the latest definition with this key that is not skipped: a later duplicate
  overwrites an earlier one in the mapping.
\<close>

theorem parsed_mapping_latest_wins:
  "distinct (map fst (contentTypes (parseTypesJson cmp data)))
   \<and> map_of (contentTypes (parseTypesJson cmp data)) k
       = latest k (case contentTypes_in data of None \<Rightarrow> [] | Some cts \<Rightarrow> cts)"
  using distinct_parse_loop[of "([], \<lambda>c. [])"] map_of_parse_loop[of "([], \<lambda>c. [])"]
  by (simp add: parseTypesJson_def Let_def split: option.splits)

section \<open>The dependency order of any model\<close>

lemma visit_covers:
  "set (snd st) \<subseteq> fst st \<inter> model_keys parsed \<Longrightarrow> distinct (snd st)
     \<Longrightarrow> visit_cover parsed [k] st (visit parsed k st)"
  "set (snd st) \<subseteq> fst st \<inter> model_keys parsed \<Longrightarrow> distinct (snd st)
     \<Longrightarrow> visit_cover parsed ds st (visit_all parsed ds st)"
proof (induction parsed k st and parsed ds st rule: visit_visit_all.induct)
  case (1 parsed k visited result)
  show ?case
  proof (cases "k \<in> visited")
    case True
    with "1.prems" show ?thesis
      by (simp add: visit_cover_def)
  next
    case unvisited: False
    show ?thesis
    proof (cases "map_of (contentTypes parsed) k")
      case None
      then have "k \<notin> model_keys parsed"
        by (rule map_of_not_model_keys)
      with "1.prems" unvisited None show ?thesis
        by (auto simp: visit_cover_def gray_def)
    next
      case (Some ct)
      then have kK: "k \<in> model_keys parsed"
        by (rule map_of_model_keys)
      let ?st1 = "(insert k visited, result)"
      let ?st2 = "visit_all parsed (dependencies ct) ?st1"
      have k_not_res: "k \<notin> set result"
        using "1.prems"(1) unvisited by auto
      have gray1: "gray parsed ?st1 = insert k (gray parsed (visited, result))"
        using kK k_not_res by (auto simp: gray_def)
      have "set (snd ?st1) \<subseteq> fst ?st1 \<inter> model_keys parsed" "distinct (snd ?st1)"
        using "1.prems" by auto
      then have cover2: "visit_cover parsed (dependencies ct) ?st1 ?st2"
        by (rule "1.IH"[OF unvisited Some])
      then have res2: "set (snd ?st2) \<subseteq> fst ?st2 \<inter> model_keys parsed" "distinct (snd ?st2)"
        and sub2: "insert k visited \<subseteq> fst ?st2"
        and gray2: "gray parsed ?st2 = insert k (gray parsed (visited, result))"
        by (simp_all add: visit_cover_def gray1)
      from gray2 have k_not_res2: "k \<notin> set (snd ?st2)"
        by (auto simp: gray_def)
      have res: "visit parsed k (visited, result) = (fst ?st2, snd ?st2 @ [k])"
        using unvisited Some by (simp add: Let_def)
      have "gray parsed (fst ?st2, snd ?st2 @ [k]) = gray parsed ?st2 - {k}"
        by (auto simp: gray_def)
      moreover have "k \<notin> gray parsed (visited, result)"
        using unvisited by (simp add: gray_def)
      ultimately have "gray parsed (fst ?st2, snd ?st2 @ [k]) = gray parsed (visited, result)"
        using gray2 by auto
      with res2 sub2 kK k_not_res2 show ?thesis
        unfolding res by (auto simp: visit_cover_def)
    qed
  qed
next
  case (2 parsed st)
  then show ?case
    by (simp add: visit_cover_def)
next
  case (3 parsed d ds st)
  let ?st1 = "visit parsed d st"
  have c1: "visit_cover parsed [d] st ?st1"
    using "3.IH"(1) "3.prems" by blast
  then have "visit_cover parsed ds ?st1 (visit_all parsed ds ?st1)"
    using "3.IH"(2) by (simp add: visit_cover_def)
  with c1 show ?case
    by (auto simp: visit_cover_def)
qed

text \<open>
  The orderer is total, and in every model, also one with cyclic dependencies, its
  output holds every key of the model exactly once. A cycle is broken rather than
  rejected: of two content types that depend on each other, the one entered second
  comes first.
\<close>

theorem buildDependencyOrder_covers:
  "distinct (buildDependencyOrder parsed)
   \<and> set (buildDependencyOrder parsed) = model_keys parsed
   \<and> buildDependencyOrder cyclic_example = [''RightBlock'', ''LeftBlock'']"
proof -
  have "visit_cover parsed (map fst (contentTypes parsed)) ({}, [])
      (visit_all parsed (map fst (contentTypes parsed)) ({}, []))"
    by (rule visit_covers) simp_all
  then have inv: "set (buildDependencyOrder parsed) \<subseteq> model_keys parsed"
      "distinct (buildDependencyOrder parsed)"
    and all: "model_keys parsed
      \<subseteq> fst (visit_all parsed (map fst (contentTypes parsed)) ({}, []))"
    and none_gray: "gray parsed (visit_all parsed (map fst (contentTypes parsed)) ({}, [])) = {}"
    by (simp_all add: visit_cover_def buildDependencyOrder_def gray_def model_keys_def)
  from all none_gray have "model_keys parsed \<subseteq> set (buildDependencyOrder parsed)"
    by (auto simp: gray_def buildDependencyOrder_def)
  with inv have "distinct (buildDependencyOrder parsed)
      \<and> set (buildDependencyOrder parsed) = model_keys parsed"
    by auto
  moreover have "buildDependencyOrder cyclic_example = [''RightBlock'', ''LeftBlock'']"
    by (simp add: buildDependencyOrder_def cyclic_example_def)
  ultimately show ?thesis
    by simp
qed

end
